theory Spec2Isabelle
  imports Main
begin

section \<open>The complexity analyzer of time.cpp\<close>

text \<open>
  The program reads lines of C++ text and labels every line, and the whole input, with a
  complexity class. All of its logic lives in the class \<open>ComplexityAnalyzer\<close>: the
  input lines and five pieces of mutable member state, a handful of regular expressions, and one loop over the
  lines. The embedding below keeps the member state as a record that is passed through
  the functions, the regular expressions as data run by a backtracking matcher, and the
  loop as a recursion over the remaining lines.

  Modelling assumptions, all about the C++ library rather than the program:
  \<^item> characters are bytes and are classified as in the "C" locale, so \<open>\s\<close> is one of the
    six ASCII white space characters and a word character (for \<open>\b\<close>) is an ASCII letter,
    digit or underscore;
  \<^item> \<open>int\<close> is modelled by the unbounded integers: the three \<open>int\<close> values of the
    program (line number, nesting level, maximum nesting) are bounded by the number of
    input lines, so they stay in range on inputs of fewer than \<open>2^31\<close> lines.
\<close>

subsection \<open>Data\<close>

datatype Complexity = CONSTANT | LINEAR | QUADRATIC | CUBIC | LINEARITHMIC | UNKNOWN

record CodeAnalysis =
  line_number :: int
  code :: string
  complexity :: Complexity
  reason :: string

text \<open>
  The private members of \<open>ComplexityAnalyzer\<close>. The block stack is a list whose head is
  the top of the \<open>std::stack\<close>; the \<open>unordered_map\<close> is a partial map.
\<close>

record analyzer =
  code_lines :: "string list"
  function_calls :: "string \<rightharpoonup> int"
  block_stack :: "string list"
  current_function :: string
  nesting_level :: int
  max_nesting :: int

text \<open>The constructor stores the lines; every other member starts empty or zero.\<close>

definition ComplexityAnalyzer :: "string list \<Rightarrow> analyzer" where
  "ComplexityAnalyzer code_in =
     \<lparr>code_lines = code_in, function_calls = Map.empty, block_stack = [],
      current_function = [], nesting_level = 0, max_nesting = 0\<rparr>"

subsection \<open>Character classes\<close>

definition is_space :: "char \<Rightarrow> bool" where
  "is_space c \<longleftrightarrow>
     c = CHR '' '' \<or> c = CHR 0x09 \<or> c = CHR 0x0A \<or> c = CHR 0x0B \<or> c = CHR 0x0C \<or> c = CHR 0x0D"

definition is_alpha :: "char \<Rightarrow> bool" where
  "is_alpha c \<longleftrightarrow>
     (let n = (of_char c :: nat) in (65 \<le> n \<and> n \<le> 90) \<or> (97 \<le> n \<and> n \<le> 122))"

definition is_digit :: "char \<Rightarrow> bool" where
  "is_digit c \<longleftrightarrow> (let n = (of_char c :: nat) in 48 \<le> n \<and> n \<le> 57)"

text \<open>\<open>[a-zA-Z_]\<close>, \<open>[a-zA-Z0-9_]\<close>, and the word characters that \<open>\b\<close> looks at.\<close>

definition is_id_start :: "char \<Rightarrow> bool" where
  "is_id_start c \<longleftrightarrow> is_alpha c \<or> c = CHR ''_''"

definition is_id_char :: "char \<Rightarrow> bool" where
  "is_id_char c \<longleftrightarrow> is_alpha c \<or> is_digit c \<or> c = CHR ''_''"

definition is_word :: "char \<Rightarrow> bool" where
  "is_word c \<longleftrightarrow> is_alpha c \<or> is_digit c \<or> c = CHR ''_''"

subsection \<open>Regular expressions\<close>

text \<open>
  The patterns of the program are sequences of a few kinds of item: the assertion
  \<open>\b\<close>, one character of a class, a greedy star of a class, an ordered alternation of
  literal strings (\<open>(for|while)\<close>; \<open>(?:const)?\<close> is the alternation of \<open>const\<close> and
  the empty string, tried in this order), and the two ends of a capture group.
\<close>

datatype item =
    Bnd
  | One "char \<Rightarrow> bool"
  | Many "char \<Rightarrow> bool"
  | Alt "string list"
  | Mark

definition word_before :: "char option \<Rightarrow> bool" where
  "word_before p = (case p of None \<Rightarrow> False | Some c \<Rightarrow> is_word c)"

definition word_at :: "string \<Rightarrow> bool" where
  "word_at inp = (case inp of [] \<Rightarrow> False | c # _ \<Rightarrow> is_word c)"

definition prev_after :: "char option \<Rightarrow> string \<Rightarrow> char option" where
  "prev_after p s = (if s = [] then p else Some (last s))"

text \<open>
  \<open>match_here re p inp\<close> runs the pattern at the start of \<open>inp\<close>, where \<open>p\<close> is the
  character before it (if any). It backtracks in the order of an ECMAScript matcher: a
  star takes as many characters as it can and gives them back one by one, an alternation
  tries its branches from left to right. The result is the input that was left at each
  \<open>Mark\<close> passed, in order, so the text of a group is what lies between its two marks.
\<close>

definition branches :: "item list \<Rightarrow> nat" where
  "branches re = (case re of Alt ss # _ \<Rightarrow> length ss | _ \<Rightarrow> 0)"

function match_here :: "item list \<Rightarrow> char option \<Rightarrow> string \<Rightarrow> string list option" where
  "match_here [] p inp = Some []"
| "match_here (Bnd # r) p inp =
     (if word_before p \<noteq> word_at inp then match_here r p inp else None)"
| "match_here (One P # r) p [] = None"
| "match_here (One P # r) p (c # cs) = (if P c then match_here r (Some c) cs else None)"
| "match_here (Many P # r) p [] = match_here r p []"
| "match_here (Many P # r) p (c # cs) =
     (if P c
      then (case match_here (Many P # r) (Some c) cs of
              Some m \<Rightarrow> Some m
            | None \<Rightarrow> match_here r p (c # cs))
      else match_here r p (c # cs))"
| "match_here (Alt [] # r) p inp = None"
| "match_here (Alt (s # ss) # r) p inp =
     (case (if take (length s) inp = s
            then match_here r (prev_after p s) (drop (length s) inp)
            else None) of
        Some m \<Rightarrow> Some m
      | None \<Rightarrow> match_here (Alt ss # r) p inp)"
| "match_here (Mark # r) p inp = map_option ((#) inp) (match_here r p inp)"
  by pat_completeness auto
termination
  by (relation "measures [\<lambda>(re, p, inp). length re, \<lambda>(re, p, inp). branches re,
                          \<lambda>(re, p, inp). length inp]")
     (auto simp: branches_def)

text \<open>\<open>regex_search\<close> tries every start position from the left and keeps the first match.\<close>

fun search_from :: "item list \<Rightarrow> char option \<Rightarrow> string \<Rightarrow> string list option" where
  "search_from re p [] = match_here re p []"
| "search_from re p (c # cs) =
     (case match_here re p (c # cs) of
        Some m \<Rightarrow> Some m
      | None \<Rightarrow> search_from re (Some c) cs)"

definition regex_search :: "string \<Rightarrow> item list \<Rightarrow> bool" where
  "regex_search line re \<longleftrightarrow> search_from re None line \<noteq> None"

text \<open>
  \<open>regex_search\<close> with a match object, read at \<open>match[1]\<close>: the text between the first
  two marks. The program reads \<open>match[1]\<close> only for the two patterns with a group.
\<close>

definition regex_search_group1 :: "string \<Rightarrow> item list \<Rightarrow> string option" where
  "regex_search_group1 line re =
     (case search_from re None line of
        Some (a # b # _) \<Rightarrow> Some (take (length a - length b) a)
      | _ \<Rightarrow> None)"

text \<open>\<open>\b(for|while)\s*\(\<close>\<close>

definition loop_re :: "item list" where
  "loop_re = [Bnd, Alt [''for'', ''while''], Many is_space, One (\<lambda>c. c = CHR ''('')]"

text \<open>
  \<open>\b([a-zA-Z_][a-zA-Z0-9_]*)\s*\([^)]*\)\s*(?:const)?\s*[{]\<close>, and the same pattern
  ending in \<open>[{;]\<close> for the first pass. The parameter is the last character class.
\<close>

definition signature_re :: "(char \<Rightarrow> bool) \<Rightarrow> item list" where
  "signature_re closer =
     [Bnd, Mark, One is_id_start, Many is_id_char, Mark, Many is_space,
      One (\<lambda>c. c = CHR ''(''), Many (\<lambda>c. c \<noteq> CHR '')''), One (\<lambda>c. c = CHR '')''),
      Many is_space, Alt [''const'', ''''], Many is_space, One closer]"

definition definition_re :: "item list" where
  "definition_re = signature_re (\<lambda>c. c = CHR ''{'')"

definition declaration_re :: "item list" where
  "declaration_re = signature_re (\<lambda>c. c = CHR ''{'' \<or> c = CHR '';'')"

text \<open>\<open>\b[a-zA-Z_][a-zA-Z0-9_]*\s*\([^)]*\)\s*;\<close>\<close>

definition call_re :: "item list" where
  "call_re =
     [Bnd, One is_id_start, Many is_id_char, Many is_space,
      One (\<lambda>c. c = CHR ''(''), Many (\<lambda>c. c \<noteq> CHR '')''), One (\<lambda>c. c = CHR '')''),
      Many is_space, One (\<lambda>c. c = CHR '';'')]"

text \<open>
  \<open>"\\b" + func_name + "\\s*\\("\<close>. The name is spliced into the pattern text; the
  program only ever passes \<open>current_function\<close>, which is empty or an identifier captured
  by \<open>definition_re\<close>, and an identifier holds no character that is special in a pattern,
  so the spliced name is a literal.
\<close>

definition recursive_re :: "string \<Rightarrow> item list" where
  "recursive_re func_name = [Bnd, Alt [func_name], Many is_space, One (\<lambda>c. c = CHR ''('')]"

subsection \<open>The helpers of the class\<close>

text \<open>
  \<open>trim\<close> replaces every match of \<open>^\s+|\s+$\<close> by the empty string: the white space at
  the start of the line and the white space at its end.
\<close>

definition trim :: "string \<Rightarrow> string" where
  "trim str = rev (dropWhile is_space (rev (dropWhile is_space str)))"

definition is_comment :: "string \<Rightarrow> bool" where
  "is_comment line \<longleftrightarrow> line = [] \<or> take 2 line = ''//''"

text \<open>
  Member functions take the object as their first argument, also where they do not read
  it (\<open>is_recursive\<close> and \<open>get_complexity_reason\<close> are \<open>const\<close> members that touch no
  member).
\<close>

definition is_recursive :: "analyzer \<Rightarrow> string \<Rightarrow> string \<Rightarrow> bool" where
  "is_recursive this line func_name \<longleftrightarrow>
     (if func_name = [] then False else regex_search line (recursive_re func_name))"

fun count_definitions :: "string list \<Rightarrow> (string \<rightharpoonup> int) \<Rightarrow> (string \<rightharpoonup> int)" where
  "count_definitions [] m = m"
| "count_definitions (line # ls) m =
     count_definitions ls
       (case regex_search_group1 line declaration_re of
          Some name \<Rightarrow> m(name \<mapsto> (case m name of None \<Rightarrow> 0 | Some k \<Rightarrow> k) + 1)
        | None \<Rightarrow> m)"

definition track_function_definitions :: "analyzer \<Rightarrow> analyzer" where
  "track_function_definitions this =
     this\<lparr>function_calls := count_definitions (code_lines this) (function_calls this)\<rparr>"

definition RESET :: string where "RESET = CHR 0x1B # ''[0m''"
definition RED :: string where "RED = CHR 0x1B # ''[31m''"
definition GREEN :: string where "GREEN = CHR 0x1B # ''[32m''"
definition YELLOW :: string where "YELLOW = CHR 0x1B # ''[33m''"
definition MAGENTA :: string where "MAGENTA = CHR 0x1B # ''[35m''"
definition CYAN :: string where "CYAN = CHR 0x1B # ''[36m''"
definition WHITE :: string where "WHITE = CHR 0x1B # ''[37m''"

definition get_complexity_reason :: "analyzer \<Rightarrow> string \<Rightarrow> Complexity \<Rightarrow> string" where
  "get_complexity_reason this line c =
     (case c of
        CONSTANT \<Rightarrow> GREEN @ ''Constant time operation (no loops)'' @ RESET
      | LINEAR \<Rightarrow>
          (if regex_search line loop_re
           then YELLOW @ ''Single loop running n times'' @ RESET
           else YELLOW @ ''Linear time operation'' @ RESET)
      | QUADRATIC \<Rightarrow>
          RED @ ''Nested loops (n '' @ [CHR 0xC3, CHR 0x97] @ '' n iterations)'' @ RESET
      | CUBIC \<Rightarrow>
          MAGENTA @ ''Triple nested loops (n '' @ [CHR 0xC3, CHR 0x97] @ '' n ''
            @ [CHR 0xC3, CHR 0x97] @ '' n iterations)'' @ RESET
      | LINEARITHMIC \<Rightarrow> CYAN @ ''Divide-and-conquer or recursive algorithm'' @ RESET
      | UNKNOWN \<Rightarrow> WHITE @ ''Unable to determine complexity'' @ RESET)"

subsection \<open>Classifying one line\<close>

definition analyze_line :: "analyzer \<Rightarrow> string \<Rightarrow> Complexity" where
  "analyze_line this line =
     (if is_comment line then CONSTANT
      else if regex_search line loop_re then
        (if nesting_level this = 0 then LINEAR
         else if nesting_level this = 1 then QUADRATIC
         else CUBIC)
      else if current_function this \<noteq> [] \<and> is_recursive this line (current_function this)
        then LINEARITHMIC
      else if regex_search line call_re then UNKNOWN
      else CONSTANT)"

subsection \<open>The loop of \<open>analyze\<close>\<close>

text \<open>
  The body of the loop, in the order of the source: the function declaration, the block
  opening, the classification with its record, the block closing.
\<close>

definition track_declaration :: "string \<Rightarrow> analyzer \<Rightarrow> analyzer" where
  "track_declaration line this =
     (case regex_search_group1 line definition_re of
        Some name \<Rightarrow> this\<lparr>current_function := name\<rparr>
      | None \<Rightarrow> this)"

definition track_opening :: "string \<Rightarrow> analyzer \<Rightarrow> analyzer" where
  "track_opening line this =
     (if regex_search line loop_re then
        this\<lparr>block_stack := ''loop'' # block_stack this,
             nesting_level := nesting_level this + 1,
             max_nesting := max (max_nesting this) (nesting_level this + 1)\<rparr>
      else if CHR ''{'' \<in> set line then
        this\<lparr>block_stack := ''block'' # block_stack this\<rparr>
      else this)"

text \<open>
  \<open>top()\<close> and \<open>pop()\<close> are \<open>hd\<close> and \<open>tl\<close>; the source calls them only behind the test
  that the stack is not empty, and so does the model.
\<close>

definition track_closing :: "string \<Rightarrow> analyzer \<Rightarrow> analyzer" where
  "track_closing line this =
     (if CHR ''}'' \<in> set line \<and> block_stack this \<noteq> [] then
        this\<lparr>nesting_level :=
               (if hd (block_stack this) = ''loop'' then nesting_level this - 1
                else nesting_level this),
             block_stack := tl (block_stack this)\<rparr>
      else this)"

definition before_line :: "string \<Rightarrow> analyzer \<Rightarrow> analyzer" where
  "before_line line this = track_opening line (track_declaration line this)"

definition line_result :: "nat \<Rightarrow> string \<Rightarrow> analyzer \<Rightarrow> CodeAnalysis" where
  "line_result i line this =
     (let comp = analyze_line this line in
      \<lparr>line_number = int (i + 1), code = line, complexity = comp,
       reason = get_complexity_reason this line comp\<rparr>)"

text \<open>
  \<open>analyze_loop i ls this\<close> is the \<open>for\<close> loop from index \<open>i\<close> on, with \<open>ls\<close> the lines
  from that index. It returns the records pushed and the object as the loop leaves it.
\<close>

fun analyze_loop :: "nat \<Rightarrow> string list \<Rightarrow> analyzer \<Rightarrow> CodeAnalysis list \<times> analyzer" where
  "analyze_loop i [] this = ([], this)"
| "analyze_loop i (l # ls) this =
     (let line = trim l;
          opened = before_line line this;
          r = line_result i line opened;
          closed = track_closing line opened;
          (rs, final) = analyze_loop (i + 1) ls closed
      in (r # rs, final))"

definition analyze :: "analyzer \<Rightarrow> CodeAnalysis list \<times> analyzer" where
  "analyze this = analyze_loop 0 (code_lines this) (track_function_definitions this)"

definition estimate_overall_complexity :: "analyzer \<Rightarrow> Complexity" where
  "estimate_overall_complexity this =
     (if max_nesting this = 0 then CONSTANT
      else if max_nesting this = 1 then LINEAR
      else if max_nesting this = 2 then QUADRATIC
      else if max_nesting this = 3 then CUBIC
      else LINEARITHMIC)"

text \<open>
  The states the object goes through during \<open>analyze\<close>: after the first pass, and for
  every line after its opening was tracked and after its closing was tracked.
\<close>

fun loop_states :: "string list \<Rightarrow> analyzer \<Rightarrow> analyzer list" where
  "loop_states [] this = []"
| "loop_states (l # ls) this =
     (let line = trim l;
          opened = before_line line this;
          closed = track_closing line opened
      in opened # closed # loop_states ls closed)"

definition run_states :: "analyzer \<Rightarrow> analyzer list" where
  "run_states this =
     track_function_definitions this
       # loop_states (code_lines this) (track_function_definitions this)"

subsection \<open>One run of the program\<close>

text \<open>
  \<open>main\<close> constructs an analyzer for the lines it has read, calls \<open>analyze\<close> once and
  prints the records, then prints the overall estimate of the same object. What a run
  puts out is this pair.
\<close>

definition run_analysis :: "string list \<Rightarrow> CodeAnalysis list \<times> Complexity" where
  "run_analysis code_in =
     (let analyzer = ComplexityAnalyzer code_in;
          (results, analyzer') = analyze analyzer
      in (results, estimate_overall_complexity analyzer'))"

subsection \<open>Invariant and comparison of inputs\<close>

text \<open>
  The nesting level counts the loop frames of the block stack. Two lines carry the same
  nesting marks when the only tests that the block tracking makes (the loop pattern, an
  opening brace, a closing brace) come out the same on both.
\<close>

definition balanced :: "analyzer \<Rightarrow> bool" where
  "balanced s \<longleftrightarrow> nesting_level s = int (count_list (block_stack s) ''loop'')"

definition same_nesting_marks :: "string \<Rightarrow> string \<Rightarrow> bool" where
  "same_nesting_marks a b \<longleftrightarrow>
     regex_search (trim a) loop_re = regex_search (trim b) loop_re \<and>
     (CHR ''{'' \<in> set (trim a)) = (CHR ''{'' \<in> set (trim b)) \<and>
     (CHR ''}'' \<in> set (trim a)) = (CHR ''}'' \<in> set (trim b))"

section \<open>Properties\<close>

subsection \<open>What each step leaves alone\<close>

lemma track_function_definitions_fields [simp]:
  "code_lines (track_function_definitions s) = code_lines s"
  "block_stack (track_function_definitions s) = block_stack s"
  "current_function (track_function_definitions s) = current_function s"
  "nesting_level (track_function_definitions s) = nesting_level s"
  "max_nesting (track_function_definitions s) = max_nesting s"
  by (simp_all add: track_function_definitions_def)

lemma track_declaration_fields [simp]:
  "code_lines (track_declaration line s) = code_lines s"
  "function_calls (track_declaration line s) = function_calls s"
  "block_stack (track_declaration line s) = block_stack s"
  "nesting_level (track_declaration line s) = nesting_level s"
  "max_nesting (track_declaration line s) = max_nesting s"
  by (simp_all add: track_declaration_def split: option.splits)

lemma track_opening_fields [simp]:
  "code_lines (track_opening line s) = code_lines s"
  "function_calls (track_opening line s) = function_calls s"
  "current_function (track_opening line s) = current_function s"
  by (simp_all add: track_opening_def)

lemma track_closing_fields [simp]:
  "code_lines (track_closing line s) = code_lines s"
  "function_calls (track_closing line s) = function_calls s"
  "current_function (track_closing line s) = current_function s"
  "max_nesting (track_closing line s) = max_nesting s"
  by (simp_all add: track_closing_def)

subsection \<open>The records\<close>

lemma analyze_loop_code: "map code (fst (analyze_loop i ls s)) = map trim ls"
  by (induction ls arbitrary: i s) (simp_all add: Let_def split_beta line_result_def)

lemma analyze_loop_line_number:
  "map line_number (fst (analyze_loop i ls s)) = map (\<lambda>k. int k + 1) [i..<i + length ls]"
proof (induction ls arbitrary: i s)
  case Nil
  show ?case by simp
next
  case (Cons l ls)
  have "[i..<i + length (l # ls)] = i # [Suc i..<Suc i + length ls]"
    by (subst upt_rec) simp
  with Cons show ?case
    by (simp add: Let_def split_beta line_result_def)
qed

text \<open>
  C6. Whatever state the object is in, \<open>analyze\<close> returns as many records as the object
  holds lines; read in order, the records carry the trimmed texts of the lines in input
  order and the line numbers 1, 2, 3, ...
\<close>

theorem one_record_per_line:
  "length (fst (analyze this)) = length (code_lines this) \<and>
   map code (fst (analyze this)) = map trim (code_lines this) \<and>
   map line_number (fst (analyze this)) = map (\<lambda>k. int k + 1) [0..<length (code_lines this)]"
proof -
  let ?rs = "fst (analyze this)"
  have c: "map code ?rs = map trim (code_lines this)"
    by (simp add: analyze_def analyze_loop_code)
  have n: "map line_number ?rs = map (\<lambda>k. int k + 1) [0..<length (code_lines this)]"
    using analyze_loop_line_number [of 0 "code_lines this" "track_function_definitions this"]
    by (simp add: analyze_def)
  have "length (map code ?rs) = length (map trim (code_lines this))"
    by (simp only: c)
  then have "length ?rs = length (code_lines this)" by simp
  with c n show ?thesis by simp
qed

theorem one_record_per_line_witness:
  "length (fst (analyze (ComplexityAnalyzer [''  int x = 0;  '', ''}'']))) = 2 \<and>
   map code (fst (analyze (ComplexityAnalyzer [''  int x = 0;  '', ''}''])))
     = [''int x = 0;'', ''}''] \<and>
   map line_number (fst (analyze (ComplexityAnalyzer [''  int x = 0;  '', ''}''])))
     = [1, 2]"
  using one_record_per_line [of "ComplexityAnalyzer [''  int x = 0;  '', ''}'']"]
  by (simp add: ComplexityAnalyzer_def trim_def is_space_def upt_conv_Cons)

subsection \<open>The nesting level and the block stack\<close>

lemma code_lines_ComplexityAnalyzer: "code_lines (ComplexityAnalyzer ls) = ls"
  by (simp add: ComplexityAnalyzer_def)

lemma balanced_before_line: "balanced s \<Longrightarrow> balanced (before_line line s)"
  by (simp add: balanced_def before_line_def track_opening_def)

lemma balanced_track_closing: "balanced s \<Longrightarrow> balanced (track_closing line s)"
  by (cases "block_stack s") (auto simp: balanced_def track_closing_def)

lemma balanced_loop_states:
  "balanced s \<Longrightarrow> t \<in> set (loop_states ls s) \<Longrightarrow> balanced t"
proof (induction ls arbitrary: s)
  case Nil
  then show ?case by simp
next
  case (Cons l ls)
  let ?o = "before_line (trim l) s"
  let ?c = "track_closing (trim l) ?o"
  have o: "balanced ?o" using Cons.prems(1) by (rule balanced_before_line)
  then have c: "balanced ?c" by (rule balanced_track_closing)
  from Cons.prems(2) have "t = ?o \<or> t = ?c \<or> t \<in> set (loop_states ls ?c)"
    by (simp add: Let_def)
  with o c Cons.IH [OF c] show ?case by blast
qed

lemma balanced_run_states:
  assumes "balanced s" and "t \<in> set (run_states s)"
  shows "balanced t"
proof -
  have b: "balanced (track_function_definitions s)"
    using assms(1) by (simp add: balanced_def)
  from assms(2) have "t = track_function_definitions s
      \<or> t \<in> set (loop_states (code_lines s) (track_function_definitions s))"
    by (simp add: run_states_def)
  with b balanced_loop_states [OF b] show ?thesis by blast
qed

lemma balanced_ComplexityAnalyzer: "balanced (ComplexityAnalyzer ls)"
  by (simp add: balanced_def ComplexityAnalyzer_def)

lemma analyze_loop_final: "snd (analyze_loop i ls s) = last (s # loop_states ls s)"
  by (induction ls arbitrary: i s) (simp_all add: Let_def split_beta)

text \<open>
  C8. A line processed while the block stack is empty leaves the object as it is at the
  closing step, closing brace or not: nothing is popped and the nesting level stays. The
  test for the empty stack is what keeps \<open>top()\<close> and \<open>pop()\<close> from an empty stack. In
  every state of a run of a new analyzer the nesting level is at least 0.
\<close>

theorem closing_on_empty_stack:
  "(block_stack this = [] \<longrightarrow> track_closing line this = this) \<and>
   (\<forall>t \<in> set (run_states (ComplexityAnalyzer ls)). 0 \<le> nesting_level t)"
proof
  show "block_stack this = [] \<longrightarrow> track_closing line this = this"
    by (simp add: track_closing_def)
next
  show "\<forall>t \<in> set (run_states (ComplexityAnalyzer ls)). 0 \<le> nesting_level t"
  proof
    fix t
    assume "t \<in> set (run_states (ComplexityAnalyzer ls))"
    with balanced_ComplexityAnalyzer have "balanced t" by (rule balanced_run_states)
    then show "0 \<le> nesting_level t" by (simp add: balanced_def)
  qed
qed

theorem closing_on_empty_stack_witness:
  "block_stack (ComplexityAnalyzer []) = [] \<and>
   track_closing ''}'' (ComplexityAnalyzer []) = ComplexityAnalyzer [] \<and>
   list_all (\<lambda>t. 0 \<le> nesting_level t)
     (run_states (ComplexityAnalyzer [''}'', ''while (n) {'', ''}'', ''}'']))"
  using closing_on_empty_stack [of "ComplexityAnalyzer []" "''}''"
      "[''}'', ''while (n) {'', ''}'', ''}'']"]
  by (simp add: ComplexityAnalyzer_def list_all_iff)

lemma max_nesting_before_line: "max_nesting s \<le> max_nesting (before_line line s)"
  by (simp add: before_line_def track_opening_def)

lemma max_nesting_sorted: "sorted (map max_nesting (s # loop_states ls s))"
proof (induction ls arbitrary: s)
  case Nil
  show ?case by simp
next
  case (Cons l ls)
  let ?o = "before_line (trim l) s"
  let ?c = "track_closing (trim l) ?o"
  have "max_nesting s \<le> max_nesting ?o" by (rule max_nesting_before_line)
  moreover have "max_nesting ?o \<le> max_nesting ?c" by simp
  moreover have "sorted (map max_nesting (?c # loop_states ls ?c))" by (rule Cons.IH)
  ultimately show ?case by (auto simp: Let_def)
qed

text \<open>
  C9. Along the states of a run, starting with the object as \<open>analyze\<close> finds it, the
  maximum nesting never decreases; if it is not negative at the start (the constructor
  sets it to 0), it is not negative in any state of the run.
\<close>

theorem max_nesting_monotone:
  "sorted (map max_nesting (this # run_states this)) \<and>
   (0 \<le> max_nesting this \<longrightarrow> (\<forall>t \<in> set (run_states this). 0 \<le> max_nesting t))"
proof -
  have s: "sorted (map max_nesting (this # run_states this))"
    using max_nesting_sorted [of "track_function_definitions this" "code_lines this"]
    by (simp add: run_states_def)
  then have "\<forall>t \<in> set (run_states this). max_nesting this \<le> max_nesting t"
    by simp
  with s show ?thesis by auto
qed

theorem max_nesting_monotone_witness:
  "0 \<le> max_nesting (ComplexityAnalyzer [''while (n) {'', ''}'']) \<and>
   sorted (map max_nesting (ComplexityAnalyzer [''while (n) {'', ''}'']
      # run_states (ComplexityAnalyzer [''while (n) {'', ''}'']))) \<and>
   list_all (\<lambda>t. 0 \<le> max_nesting t) (run_states (ComplexityAnalyzer [''while (n) {'', ''}'']))"
  using max_nesting_monotone [of "ComplexityAnalyzer [''while (n) {'', ''}'']"]
  by (simp add: ComplexityAnalyzer_def list_all_iff)

text \<open>
  C10. In every state of a run of a new analyzer the nesting level is the number of
  \<open>loop\<close> frames on the block stack. A line with the loop pattern pushes a \<open>loop\<close>
  frame and adds one to the level; any other line pushes a \<open>block\<close> frame or nothing and
  leaves the level; a closing brace pops the top frame and takes one from the level
  exactly when that frame is a \<open>loop\<close> frame.
\<close>

theorem depth_counts_loop_frames:
  "(\<forall>t \<in> set (run_states (ComplexityAnalyzer ls)).
      nesting_level t = int (count_list (block_stack t) ''loop'')) \<and>
   (regex_search line loop_re \<longrightarrow>
      block_stack (track_opening line this) = ''loop'' # block_stack this \<and>
      nesting_level (track_opening line this) = nesting_level this + 1) \<and>
   (\<not> regex_search line loop_re \<longrightarrow>
      block_stack (track_opening line this)
        = (if CHR ''{'' \<in> set line then ''block'' # block_stack this else block_stack this) \<and>
      nesting_level (track_opening line this) = nesting_level this) \<and>
   (CHR ''}'' \<in> set line \<and> block_stack this = frame # rest \<longrightarrow>
      block_stack (track_closing line this) = rest \<and>
      nesting_level (track_closing line this)
        = (if frame = ''loop'' then nesting_level this - 1 else nesting_level this))"
proof -
  have "nesting_level t = int (count_list (block_stack t) ''loop'')"
    if "t \<in> set (run_states (ComplexityAnalyzer ls))" for t
    using balanced_run_states [OF balanced_ComplexityAnalyzer that]
    by (simp add: balanced_def)
  then show ?thesis
    by (simp add: track_opening_def track_closing_def)
qed

theorem depth_counts_loop_frames_witness:
  "list_all (\<lambda>t. nesting_level t = int (count_list (block_stack t) ''loop''))
     (run_states (ComplexityAnalyzer [''while (n) {'', ''if (x) {'', ''}'', ''}''])) \<and>
   regex_search ''while (n) {'' loop_re \<and>
   nesting_level (track_opening ''while (n) {'' (ComplexityAnalyzer [])) = 1 \<and>
   \<not> regex_search ''if (x) {'' loop_re \<and>
   nesting_level (track_opening ''if (x) {'' (ComplexityAnalyzer [])) = 0 \<and>
   block_stack (track_opening ''if (x) {'' (ComplexityAnalyzer [])) = [''block''] \<and>
   CHR ''}'' \<in> set ''}'' \<and>
   block_stack (track_opening ''while (n) {'' (ComplexityAnalyzer [])) = ''loop'' # [] \<and>
   block_stack (track_closing ''}'' (track_opening ''while (n) {'' (ComplexityAnalyzer []))) = [] \<and>
   nesting_level (track_closing ''}'' (track_opening ''while (n) {'' (ComplexityAnalyzer []))) = 0"
proof -
  let ?opened = "track_opening ''while (n) {'' (ComplexityAnalyzer [])"
  have a: "regex_search ''while (n) {'' loop_re" by code_simp
  have b: "\<not> regex_search ''if (x) {'' loop_re" by code_simp
  have c: "CHR ''}'' \<in> set ''}''" by simp
  have d: "block_stack ?opened = ''loop'' # []"
    using a by (simp add: track_opening_def ComplexityAnalyzer_def)
  have e: "nesting_level ?opened = 1"
    using a by (simp add: track_opening_def ComplexityAnalyzer_def)
  have pop: "block_stack (track_closing ''}'' ?opened) = [] \<and>
      nesting_level (track_closing ''}'' ?opened) = 0"
    using c d e depth_counts_loop_frames [of "[]" "''}''" ?opened "''loop''" "[]"]
    by simp
  have push: "list_all (\<lambda>t. nesting_level t = int (count_list (block_stack t) ''loop''))
       (run_states (ComplexityAnalyzer [''while (n) {'', ''if (x) {'', ''}'', ''}''])) \<and>
     nesting_level (track_opening ''if (x) {'' (ComplexityAnalyzer [])) = 0 \<and>
     block_stack (track_opening ''if (x) {'' (ComplexityAnalyzer [])) = [''block'']"
    using a b
      depth_counts_loop_frames [of "[''while (n) {'', ''if (x) {'', ''}'', ''}'']"
        "''while (n) {''" "ComplexityAnalyzer []"]
      depth_counts_loop_frames [of "[]" "''if (x) {''" "ComplexityAnalyzer []"]
    by (simp add: ComplexityAnalyzer_def list_all_iff)
  from a b c d e pop push show ?thesis by blast
qed

subsection \<open>The overall estimate\<close>

lemma analyze_loop_nesting_only:
  assumes "list_all2 same_nesting_marks ls ls'"
    and "block_stack s = block_stack s'"
    and "nesting_level s = nesting_level s'"
    and "max_nesting s = max_nesting s'"
  shows "max_nesting (snd (analyze_loop i ls s)) = max_nesting (snd (analyze_loop i' ls' s'))"
  using assms
proof (induction ls ls' arbitrary: s s' i i' rule: list_all2_induct)
  case Nil
  then show ?case by simp
next
  case (Cons a as b bs)
  let ?c = "track_closing (trim a) (before_line (trim a) s)"
  let ?c' = "track_closing (trim b) (before_line (trim b) s')"
  from Cons.hyps(1) Cons.prems
  have "block_stack ?c = block_stack ?c' \<and> nesting_level ?c = nesting_level ?c'
      \<and> max_nesting ?c = max_nesting ?c'"
    by (simp add: same_nesting_marks_def before_line_def track_opening_def track_closing_def)
  then have "max_nesting (snd (analyze_loop (i + 1) as ?c))
      = max_nesting (snd (analyze_loop (i' + 1) bs ?c'))"
    using Cons.IH by blast
  then show ?case by (simp add: Let_def split_beta)
qed

text \<open>
  C2. The overall estimate is read off the maximum nesting: 0 gives CONSTANT, 1 LINEAR,
  2 QUADRATIC, 3 CUBIC, 4 or more LINEARITHMIC, and two objects with the same maximum
  nesting get the same estimate. Two inputs whose lines carry the same nesting marks get
  the same estimate from a new analyzer, whatever else their lines hold: function
  definitions, recursive calls and calls do not reach the estimate.
\<close>

theorem overall_verdict:
  "(max_nesting this = 0 \<longrightarrow> estimate_overall_complexity this = CONSTANT) \<and>
   (max_nesting this = 1 \<longrightarrow> estimate_overall_complexity this = LINEAR) \<and>
   (max_nesting this = 2 \<longrightarrow> estimate_overall_complexity this = QUADRATIC) \<and>
   (max_nesting this = 3 \<longrightarrow> estimate_overall_complexity this = CUBIC) \<and>
   (4 \<le> max_nesting this \<longrightarrow> estimate_overall_complexity this = LINEARITHMIC) \<and>
   (max_nesting this = max_nesting that \<longrightarrow>
      estimate_overall_complexity this = estimate_overall_complexity that) \<and>
   (list_all2 same_nesting_marks ls ls' \<longrightarrow>
      estimate_overall_complexity (snd (analyze (ComplexityAnalyzer ls)))
        = estimate_overall_complexity (snd (analyze (ComplexityAnalyzer ls'))))"
proof -
  have "max_nesting (snd (analyze (ComplexityAnalyzer ls)))
      = max_nesting (snd (analyze (ComplexityAnalyzer ls')))"
    if "list_all2 same_nesting_marks ls ls'"
    using analyze_loop_nesting_only [OF that,
        of "track_function_definitions (ComplexityAnalyzer ls)"
           "track_function_definitions (ComplexityAnalyzer ls')" 0 0]
    by (simp add: analyze_def) (simp add: ComplexityAnalyzer_def)
  then show ?thesis by (simp add: estimate_overall_complexity_def)
qed

theorem overall_verdict_witness:
  "max_nesting (snd (analyze (ComplexityAnalyzer [''while (n) {'']))) = 1 \<and>
   estimate_overall_complexity (snd (analyze (ComplexityAnalyzer [''while (n) {'']))) = LINEAR \<and>
   list_all2 same_nesting_marks
     [''int fib(int n) {'', ''return fib(n-1) + fib(n-2);'', ''}'']
     [''{'', ''n'', ''}''] \<and>
   estimate_overall_complexity (snd (analyze (ComplexityAnalyzer
       [''int fib(int n) {'', ''return fib(n-1) + fib(n-2);'', ''}''])))
     = estimate_overall_complexity (snd (analyze (ComplexityAnalyzer [''{'', ''n'', ''}''])))"
proof -
  have m: "max_nesting (snd (analyze (ComplexityAnalyzer [''while (n) {'']))) = 1"
    by code_simp
  have l: "list_all2 same_nesting_marks
     [''int fib(int n) {'', ''return fib(n-1) + fib(n-2);'', ''}'']
     [''{'', ''n'', ''}'']"
    by code_simp
  show ?thesis
    using m l
      overall_verdict [of "snd (analyze (ComplexityAnalyzer [''while (n) {'']))"
        "snd (analyze (ComplexityAnalyzer [''while (n) {'']))"
        "[''int fib(int n) {'', ''return fib(n-1) + fib(n-2);'', ''}'']"
        "[''{'', ''n'', ''}'']"]
    by simp
qed

subsection \<open>What the records depend on\<close>

lemma line_result_agree:
  assumes "nesting_level s = nesting_level s'" and "current_function s = current_function s'"
  shows "line_result i line s = line_result i line s'"
  using assms
  by (simp add: line_result_def analyze_line_def is_recursive_def get_complexity_reason_def)

lemma before_line_agree:
  assumes "block_stack s = block_stack s'" and "nesting_level s = nesting_level s'"
    and "current_function s = current_function s'"
  shows "block_stack (before_line line s) = block_stack (before_line line s') \<and>
         nesting_level (before_line line s) = nesting_level (before_line line s') \<and>
         current_function (before_line line s) = current_function (before_line line s')"
  using assms
  by (simp add: before_line_def track_opening_def track_declaration_def split: option.splits)

lemma track_closing_agree:
  assumes "block_stack s = block_stack s'" and "nesting_level s = nesting_level s'"
  shows "block_stack (track_closing line s) = block_stack (track_closing line s') \<and>
         nesting_level (track_closing line s) = nesting_level (track_closing line s')"
  using assms by (simp add: track_closing_def)

lemma analyze_loop_agree:
  assumes "block_stack s = block_stack s'" and "nesting_level s = nesting_level s'"
    and "current_function s = current_function s'"
  shows "fst (analyze_loop i ls s) = fst (analyze_loop i ls s')"
  using assms
proof (induction ls arbitrary: i s s')
  case Nil
  show ?case by simp
next
  case (Cons l ls)
  let ?o = "before_line (trim l) s" and ?o' = "before_line (trim l) s'"
  have o: "block_stack ?o = block_stack ?o' \<and> nesting_level ?o = nesting_level ?o'
      \<and> current_function ?o = current_function ?o'"
    using Cons.prems by (rule before_line_agree)
  then have r: "line_result i (trim l) ?o = line_result i (trim l) ?o'"
    by (intro line_result_agree) simp_all
  have c: "block_stack (track_closing (trim l) ?o) = block_stack (track_closing (trim l) ?o')
      \<and> nesting_level (track_closing (trim l) ?o) = nesting_level (track_closing (trim l) ?o')"
    using o by (intro track_closing_agree) simp_all
  have "fst (analyze_loop (i + 1) ls (track_closing (trim l) ?o))
      = fst (analyze_loop (i + 1) ls (track_closing (trim l) ?o'))"
    using c o by (intro Cons.IH) simp_all
  with r show ?case by (simp add: Let_def split_beta)
qed

text \<open>
  C5 (as amended). The records do not depend on the registry: the loop of \<open>analyze\<close>
  started on the object with any registry \<open>fc\<close> in place of the one the first pass
  builds (with \<open>fc = function_calls this\<close>: the first pass left out) returns the records
  that \<open>analyze\<close> returns.
\<close>

theorem registry_not_consulted:
  "fst (analyze_loop 0 (code_lines this) (this\<lparr>function_calls := fc\<rparr>)) = fst (analyze this)"
  unfolding analyze_def by (rule analyze_loop_agree) simp_all

theorem registry_not_consulted_witness:
  "map complexity (fst (analyze_loop 0 [''int fib(int n) {'', ''return fib(n-1);'']
      ((ComplexityAnalyzer [''int fib(int n) {'', ''return fib(n-1);''])
         \<lparr>function_calls := Map.empty\<rparr>)))
   = map complexity (fst (analyze (ComplexityAnalyzer [''int fib(int n) {'', ''return fib(n-1);''])))"
  using registry_not_consulted
    [of "ComplexityAnalyzer [''int fib(int n) {'', ''return fib(n-1);'']" Map.empty]
  by (simp only: code_lines_ComplexityAnalyzer)

text \<open>
  C5 as stated fails: no input and no registry change the class of any line.
\<close>

theorem registry_changes_nothing:
  "\<not> (\<exists>ls fc. map complexity (fst (analyze_loop 0 ls ((ComplexityAnalyzer ls)\<lparr>function_calls := fc\<rparr>)))
       \<noteq> map complexity (fst (analyze (ComplexityAnalyzer ls))))"
proof -
  have "fst (analyze_loop 0 ls ((ComplexityAnalyzer ls)\<lparr>function_calls := fc\<rparr>))
      = fst (analyze (ComplexityAnalyzer ls))" for ls fc
    using analyze_loop_agree [of "(ComplexityAnalyzer ls)\<lparr>function_calls := fc\<rparr>"
        "track_function_definitions (ComplexityAnalyzer ls)" 0 ls]
    by (simp add: analyze_def) (simp add: ComplexityAnalyzer_def)
  then show ?thesis by simp
qed

subsection \<open>Runs are independent\<close>

lemma analyze_loop_code_lines: "code_lines (snd (analyze_loop i ls s)) = code_lines s"
  by (induction ls arbitrary: i s) (simp_all add: Let_def split_beta before_line_def)

lemma analyze_unfold:
  "code_lines s = ls \<Longrightarrow> analyze s = analyze_loop 0 ls (track_function_definitions s)"
  by (simp add: analyze_def)

lemma analyze_code_lines: "code_lines (snd (analyze this)) = code_lines this"
  by (simp add: analyze_def analyze_loop_code_lines)

lemma same_nesting_marks_refl: "list_all2 same_nesting_marks ls ls"
  by (simp add: list_all2_same same_nesting_marks_def)

lemma analyze_as_constructed:
  assumes "code_lines this = ls" and "block_stack this = []" and "current_function this = []"
    and "nesting_level this = 0" and "max_nesting this = 0"
  shows "(fst (analyze this), estimate_overall_complexity (snd (analyze this)))
           = run_analysis ls"
proof -
  let ?new = "track_function_definitions (ComplexityAnalyzer ls)"
  let ?old = "track_function_definitions this"
  have a: "analyze this = analyze_loop 0 ls ?old"
    using assms(1) by (rule analyze_unfold)
  have b: "analyze (ComplexityAnalyzer ls) = analyze_loop 0 ls ?new"
    by (rule analyze_unfold) (rule code_lines_ComplexityAnalyzer)
  have stack: "block_stack ?old = block_stack ?new"
    using assms(2) by (simp add: ComplexityAnalyzer_def)
  have level: "nesting_level ?old = nesting_level ?new"
    using assms(4) by (simp add: ComplexityAnalyzer_def)
  have name: "current_function ?old = current_function ?new"
    using assms(3) by (simp add: ComplexityAnalyzer_def)
  have top: "max_nesting ?old = max_nesting ?new"
    using assms(5) by (simp add: ComplexityAnalyzer_def)
  have records: "fst (analyze_loop 0 ls ?old) = fst (analyze_loop 0 ls ?new)"
    using stack level name by (rule analyze_loop_agree)
  have "max_nesting (snd (analyze_loop 0 ls ?old)) = max_nesting (snd (analyze_loop 0 ls ?new))"
    using same_nesting_marks_refl stack level top by (rule analyze_loop_nesting_only)
  then have verdict: "estimate_overall_complexity (snd (analyze_loop 0 ls ?old))
      = estimate_overall_complexity (snd (analyze_loop 0 ls ?new))"
    by (simp add: estimate_overall_complexity_def)
  have "run_analysis ls
      = (fst (analyze_loop 0 ls ?new), estimate_overall_complexity (snd (analyze_loop 0 ls ?new)))"
    by (simp only: run_analysis_def Let_def split_beta b)
  with records verdict show ?thesis by (simp only: a)
qed

text \<open>
  C7. Every run constructs its own analyzer, and the constructor fixes every member, so
  what a run puts out is \<open>run_analysis\<close> of its input and of nothing else: the records and
  the estimate that \<open>analyze\<close> gives on a new analyzer are \<open>run_analysis\<close> of the lines, and
  so are those of any object that holds these lines and has the constructor's values in
  the members the loop reads or writes, whatever its registry holds. A run leaves the
  lines of its analyzer as they were, so a second run on the lines the first one worked
  on has the same input and puts out the same records and the same estimate.
\<close>

theorem independent_runs_identical:
  "(fst (analyze (ComplexityAnalyzer ls)),
    estimate_overall_complexity (snd (analyze (ComplexityAnalyzer ls)))) = run_analysis ls \<and>
   (code_lines this = ls \<and> block_stack this = [] \<and> current_function this = [] \<and>
    nesting_level this = 0 \<and> max_nesting this = 0 \<longrightarrow>
      (fst (analyze this), estimate_overall_complexity (snd (analyze this))) = run_analysis ls) \<and>
   code_lines (snd (analyze (ComplexityAnalyzer ls))) = ls \<and>
   run_analysis (code_lines (snd (analyze (ComplexityAnalyzer ls)))) = run_analysis ls"
proof -
  have fresh: "(fst (analyze (ComplexityAnalyzer ls)),
      estimate_overall_complexity (snd (analyze (ComplexityAnalyzer ls)))) = run_analysis ls"
    by (rule analyze_as_constructed) (simp_all add: ComplexityAnalyzer_def)
  have kept: "code_lines (snd (analyze (ComplexityAnalyzer ls))) = ls"
    by (simp only: analyze_code_lines code_lines_ComplexityAnalyzer)
  have again: "run_analysis (code_lines (snd (analyze (ComplexityAnalyzer ls)))) = run_analysis ls"
    by (simp only: kept)
  have other: "(fst (analyze this), estimate_overall_complexity (snd (analyze this)))
      = run_analysis ls"
    if "code_lines this = ls \<and> block_stack this = [] \<and> current_function this = [] \<and>
      nesting_level this = 0 \<and> max_nesting this = 0"
    using that by (intro analyze_as_constructed) simp_all
  from fresh other kept again show ?thesis by blast
qed

theorem independent_runs_identical_witness:
  "code_lines ((ComplexityAnalyzer [''int fib(int n) {'', ''return fib(n-1);'', ''}''])
      \<lparr>function_calls := [''fib'' \<mapsto> 7]\<rparr>)
     = [''int fib(int n) {'', ''return fib(n-1);'', ''}''] \<and>
   block_stack ((ComplexityAnalyzer [''int fib(int n) {'', ''return fib(n-1);'', ''}''])
      \<lparr>function_calls := [''fib'' \<mapsto> 7]\<rparr>) = [] \<and>
   current_function ((ComplexityAnalyzer [''int fib(int n) {'', ''return fib(n-1);'', ''}''])
      \<lparr>function_calls := [''fib'' \<mapsto> 7]\<rparr>) = [] \<and>
   nesting_level ((ComplexityAnalyzer [''int fib(int n) {'', ''return fib(n-1);'', ''}''])
      \<lparr>function_calls := [''fib'' \<mapsto> 7]\<rparr>) = 0 \<and>
   max_nesting ((ComplexityAnalyzer [''int fib(int n) {'', ''return fib(n-1);'', ''}''])
      \<lparr>function_calls := [''fib'' \<mapsto> 7]\<rparr>) = 0 \<and>
   (fst (analyze ((ComplexityAnalyzer [''int fib(int n) {'', ''return fib(n-1);'', ''}''])
        \<lparr>function_calls := [''fib'' \<mapsto> 7]\<rparr>)),
    estimate_overall_complexity
      (snd (analyze ((ComplexityAnalyzer [''int fib(int n) {'', ''return fib(n-1);'', ''}''])
        \<lparr>function_calls := [''fib'' \<mapsto> 7]\<rparr>))))
     = run_analysis [''int fib(int n) {'', ''return fib(n-1);'', ''}''] \<and>
   run_analysis (code_lines (snd (analyze
       (ComplexityAnalyzer [''int fib(int n) {'', ''return fib(n-1);'', ''}'']))))
     = run_analysis [''int fib(int n) {'', ''return fib(n-1);'', ''}'']"
proof -
  let ?ls = "[''int fib(int n) {'', ''return fib(n-1);'', ''}'']"
  let ?obj = "(ComplexityAnalyzer ?ls)\<lparr>function_calls := [''fib'' \<mapsto> 7]\<rparr>"
  have h: "code_lines ?obj = ?ls \<and> block_stack ?obj = [] \<and> current_function ?obj = [] \<and>
      nesting_level ?obj = 0 \<and> max_nesting ?obj = 0"
    by (simp add: ComplexityAnalyzer_def)
  from h independent_runs_identical [of ?ls ?obj] show ?thesis
    by blast
qed

text \<open>
  The members are reset by the constructor only, not by \<open>analyze\<close>: a second call of
  \<open>analyze\<close> on the object of a run is not a run, and it starts from what the first call
  left.
\<close>

lemma second_call_differs:
  "map complexity (fst (analyze (ComplexityAnalyzer [''while (n) {'']))) = [QUADRATIC] \<and>
   map complexity (fst (analyze (snd (analyze (ComplexityAnalyzer [''while (n) {'']))))) = [CUBIC] \<and>
   estimate_overall_complexity (snd (analyze (ComplexityAnalyzer [''while (n) {'']))) = LINEAR \<and>
   estimate_overall_complexity
       (snd (analyze (snd (analyze (ComplexityAnalyzer [''while (n) {''])))))
     = QUADRATIC \<and>
   fst (analyze (snd (analyze (ComplexityAnalyzer [''while (n) {'']))))
     \<noteq> fst (analyze (ComplexityAnalyzer [''while (n) {'']))"
proof -
  have a: "map complexity (fst (analyze (ComplexityAnalyzer [''while (n) {'']))) = [QUADRATIC]"
    by code_simp
  have b: "map complexity (fst (analyze (snd (analyze (ComplexityAnalyzer [''while (n) {''])))))
      = [CUBIC]"
    by code_simp
  have c: "estimate_overall_complexity (snd (analyze (ComplexityAnalyzer [''while (n) {''])))
      = LINEAR"
    by code_simp
  have d: "estimate_overall_complexity
       (snd (analyze (snd (analyze (ComplexityAnalyzer [''while (n) {''])))))
     = QUADRATIC"
    by code_simp
  have "fst (analyze (snd (analyze (ComplexityAnalyzer [''while (n) {'']))))
     \<noteq> fst (analyze (ComplexityAnalyzer [''while (n) {'']))"
  proof
    assume "fst (analyze (snd (analyze (ComplexityAnalyzer [''while (n) {'']))))
      = fst (analyze (ComplexityAnalyzer [''while (n) {'']))"
    then have "map complexity (fst (analyze (snd (analyze (ComplexityAnalyzer [''while (n) {''])))))
      = map complexity (fst (analyze (ComplexityAnalyzer [''while (n) {''])))"
      by (rule arg_cong)
    then show False by (simp only: a b) simp
  qed
  with a b c d show ?thesis by (intro conjI)
qed

subsection \<open>Loop lines\<close>

text \<open>
  The opening of a loop line is tracked before the line is classified, so the nesting
  level that \<open>analyze_line\<close> reads already counts the line's own frame: in a run of a
  new analyzer no line at all is classified LINEAR.
\<close>

lemma analyze_line_not_linear:
  assumes "balanced s"
  shows "analyze_line (before_line line s) line \<noteq> LINEAR"
proof -
  have "0 \<le> nesting_level s" using assms by (simp add: balanced_def)
  then have "regex_search line loop_re \<Longrightarrow> nesting_level (before_line line s) \<noteq> 0"
    by (simp add: before_line_def track_opening_def)
  then show ?thesis by (auto simp: analyze_line_def)
qed

lemma analyze_loop_never_linear:
  "balanced s \<Longrightarrow> LINEAR \<notin> set (map complexity (fst (analyze_loop i ls s)))"
proof (induction ls arbitrary: i s)
  case Nil
  show ?case by simp
next
  case (Cons l ls)
  have "balanced (track_closing (trim l) (before_line (trim l) s))"
    using Cons.prems by (intro balanced_track_closing balanced_before_line)
  then have "LINEAR \<notin> set (map complexity
      (fst (analyze_loop (i + 1) ls (track_closing (trim l) (before_line (trim l) s)))))"
    by (rule Cons.IH)
  with analyze_line_not_linear [OF Cons.prems, of "trim l"] show ?case
    by (simp add: Let_def split_beta line_result_def)
qed

lemma no_line_is_linear:
  "LINEAR \<notin> set (map complexity (fst (analyze (ComplexityAnalyzer ls))))"
  unfolding analyze_def
  by (rule analyze_loop_never_linear) (simp add: balanced_def ComplexityAnalyzer_def)

text \<open>
  C1. The claim fails on the code: the line \<open>for (int i = 0; i < n; i++) {\<close> outside any
  open loop is classified QUADRATIC, with the reason text for nested loops, while the
  overall estimate of the same input is LINEAR.
\<close>

theorem single_loop_classified_quadratic:
  "map complexity (fst (analyze (ComplexityAnalyzer [''for (int i = 0; i < n; i++) {''])))
     = [QUADRATIC] \<and>
   map reason (fst (analyze (ComplexityAnalyzer [''for (int i = 0; i < n; i++) {''])))
     = [RED @ ''Nested loops (n '' @ [CHR 0xC3, CHR 0x97] @ '' n iterations)'' @ RESET] \<and>
   estimate_overall_complexity (snd (analyze (ComplexityAnalyzer [''for (int i = 0; i < n; i++) {''])))
     = LINEAR"
  by code_simp

subsection \<open>The matcher\<close>

lemma prev_after_Cons: "prev_after (Some c) cs = prev_after p (c # cs)"
  by (simp add: prev_after_def)

lemma search_from_complete:
  "match_here re (prev_after p pre) post \<noteq> None \<Longrightarrow> search_from re p (pre @ post) \<noteq> None"
proof (induction pre arbitrary: p)
  case Nil
  then show ?case by (cases post) (auto simp: prev_after_def split: option.splits)
next
  case (Cons c cs)
  from Cons.prems have "match_here re (prev_after (Some c) cs) post \<noteq> None"
    by (simp add: prev_after_Cons [of c cs p, symmetric])
  then have "search_from re (Some c) (cs @ post) \<noteq> None" by (rule Cons.IH)
  then show ?case by (simp split: option.splits)
qed

lemma search_from_sound:
  "search_from re p inp = Some m \<Longrightarrow>
   \<exists>pre post. inp = pre @ post \<and> match_here re (prev_after p pre) post = Some m"
proof (induction inp arbitrary: p)
  case Nil
  then have *: "[] = [] @ [] \<and> match_here re (prev_after p []) [] = Some m"
    by (simp add: prev_after_def)
  show ?case by (rule exI [of _ "[]"], rule exI [of _ "[]"], rule *)
next
  case (Cons c cs)
  show ?case
  proof (cases "match_here re p (c # cs)")
    case (Some m')
    with Cons.prems
    have *: "c # cs = [] @ (c # cs) \<and> match_here re (prev_after p []) (c # cs) = Some m"
      by (simp add: prev_after_def)
    show ?thesis by (rule exI [of _ "[]"], rule exI [of _ "c # cs"], rule *)
  next
    case None
    with Cons.prems have "search_from re (Some c) cs = Some m" by simp
    from Cons.IH [OF this] obtain pre post where pp: "cs = pre @ post"
      and mh: "match_here re (prev_after (Some c) pre) post = Some m"
      by (elim exE conjE)
    from mh have "match_here re (prev_after p (c # pre)) post = Some m"
      by (simp only: prev_after_Cons [of c pre p])
    with pp
    have *: "c # cs = (c # pre) @ post \<and> match_here re (prev_after p (c # pre)) post = Some m"
      by simp
    show ?thesis by (rule exI [of _ "c # pre"], rule exI [of _ post], rule *)
  qed
qed

lemma many_sound:
  "match_here (Many P # r) p inp = Some m \<Longrightarrow>
   \<exists>a b. inp = a @ b \<and> (\<forall>x \<in> set a. P x) \<and> match_here r (prev_after p a) b = Some m"
proof (induction inp arbitrary: p)
  case Nil
  then have *: "[] = [] @ [] \<and> (\<forall>x \<in> set []. P x)
      \<and> match_here r (prev_after p []) [] = Some m"
    by (simp add: prev_after_def)
  show ?case by (rule exI [of _ "[]"], rule exI [of _ "[]"], rule *)
next
  case (Cons c cs)
  show ?case
  proof (cases "P c \<and> match_here (Many P # r) (Some c) cs \<noteq> None")
    case True
    with Cons.prems have "match_here (Many P # r) (Some c) cs = Some m" by auto
    from Cons.IH [OF this] obtain a b where ab: "cs = a @ b" "\<forall>x \<in> set a. P x"
      and mh: "match_here r (prev_after (Some c) a) b = Some m"
      by (elim exE conjE)
    from mh have "match_here r (prev_after p (c # a)) b = Some m"
      by (simp only: prev_after_Cons [of c a p])
    with ab True have *: "c # cs = (c # a) @ b \<and> (\<forall>x \<in> set (c # a). P x)
        \<and> match_here r (prev_after p (c # a)) b = Some m"
      by simp
    show ?thesis by (rule exI [of _ "c # a"], rule exI [of _ b], rule *)
  next
    case False
    with Cons.prems have "match_here r p (c # cs) = Some m"
      by (auto split: if_splits option.splits)
    then have *: "c # cs = [] @ (c # cs) \<and> (\<forall>x \<in> set []. P x)
        \<and> match_here r (prev_after p []) (c # cs) = Some m"
      by (simp add: prev_after_def)
    show ?thesis by (rule exI [of _ "[]"], rule exI [of _ "c # cs"], rule *)
  qed
qed

lemma many_complete:
  "\<forall>x \<in> set a. P x \<Longrightarrow> match_here r (prev_after p a) b \<noteq> None \<Longrightarrow>
   match_here (Many P # r) p (a @ b) \<noteq> None"
proof (induction a arbitrary: p)
  case Nil
  then show ?case by (cases b) (auto simp: prev_after_def split: option.splits)
next
  case (Cons c cs)
  from Cons.prems(2) have "match_here r (prev_after (Some c) cs) b \<noteq> None"
    by (simp add: prev_after_Cons [of c cs p, symmetric])
  with Cons.prems(1) have "match_here (Many P # r) (Some c) (cs @ b) \<noteq> None"
    by (intro Cons.IH) simp_all
  with Cons.prems(1) show ?case by (auto split: option.splits)
qed

lemma is_id_start_word: "is_id_start c \<Longrightarrow> is_word c"
  by (auto simp: is_id_start_def is_word_def)

lemma signature_match_shape:
  assumes "match_here (signature_re closer) p post = Some m"
  shows "\<exists>c a b sp rest ms. post = c # a @ b \<and> m = post # b # ms \<and> is_id_start c
           \<and> (\<forall>x \<in> set a. is_id_char x)
           \<and> b = sp @ CHR ''('' # rest \<and> (\<forall>x \<in> set sp. is_space x) \<and> \<not> word_before p"
proof -
  from assms obtain m1 where bnd: "word_before p \<noteq> word_at post"
    and m: "m = post # m1"
    and m1: "match_here (One is_id_start # Many is_id_char # Mark # Many is_space
        # One (\<lambda>c. c = CHR ''('') # Many (\<lambda>c. c \<noteq> CHR '')'') # One (\<lambda>c. c = CHR '')'')
        # Many is_space # Alt [''const'', ''''] # Many is_space # [One closer]) p post = Some m1"
    by (auto simp: signature_re_def split: if_splits)
  from m1 obtain c cs where post: "post = c # cs" and c: "is_id_start c"
    and m1': "match_here (Many is_id_char # Mark # Many is_space
        # One (\<lambda>c. c = CHR ''('') # Many (\<lambda>c. c \<noteq> CHR '')'') # One (\<lambda>c. c = CHR '')'')
        # Many is_space # Alt [''const'', ''''] # Many is_space # [One closer]) (Some c) cs = Some m1"
    by (cases post) (auto split: if_splits)
  from many_sound [OF m1'] obtain a b where cs: "cs = a @ b"
    and ida: "\<forall>x \<in> set a. is_id_char x"
    and m2: "match_here (Mark # Many is_space
        # One (\<lambda>c. c = CHR ''('') # Many (\<lambda>c. c \<noteq> CHR '')'') # One (\<lambda>c. c = CHR '')'')
        # Many is_space # Alt [''const'', ''''] # Many is_space # [One closer])
        (prev_after (Some c) a) b = Some m1"
    by blast
  from m2 obtain ms where m1eq: "m1 = b # ms"
    and m3: "match_here (Many is_space
        # One (\<lambda>c. c = CHR ''('') # Many (\<lambda>c. c \<noteq> CHR '')'') # One (\<lambda>c. c = CHR '')'')
        # Many is_space # Alt [''const'', ''''] # Many is_space # [One closer])
        (prev_after (Some c) a) b = Some ms"
    by auto
  from many_sound [OF m3] obtain sp b' where b: "b = sp @ b'" and sp: "\<forall>x \<in> set sp. is_space x"
    and m4: "match_here (One (\<lambda>c. c = CHR ''('') # Many (\<lambda>c. c \<noteq> CHR '')'')
        # One (\<lambda>c. c = CHR '')'')
        # Many is_space # Alt [''const'', ''''] # Many is_space # [One closer])
        (prev_after (prev_after (Some c) a) sp) b' = Some ms"
    by blast
  from m4 obtain rest where b': "b' = CHR ''('' # rest"
    by (cases b') (auto split: if_splits)
  from bnd post c have "\<not> word_before p"
    by (simp add: word_at_def is_id_start_word)
  with post cs m m1eq c ida b b' sp show ?thesis by blast
qed

lemma recursive_re_match:
  assumes "n \<noteq> []" and "is_word (hd n)" and "\<forall>x \<in> set sp. is_space x"
    and "\<not> word_before (prev_after None pre)"
  shows "regex_search (pre @ n @ sp @ CHR ''('' # rest) (recursive_re n)"
proof -
  let ?p = "prev_after None pre"
  have "match_here [One (\<lambda>c. c = CHR ''('')] (prev_after (prev_after ?p n) sp) (CHR ''('' # rest)
      \<noteq> None"
    by simp
  with assms(3) have "match_here [Many is_space, One (\<lambda>c. c = CHR ''('')] (prev_after ?p n)
      (sp @ CHR ''('' # rest) \<noteq> None"
    by (rule many_complete)
  moreover have "word_at (n @ sp @ CHR ''('' # rest)"
    using assms(1,2) by (cases n) (simp_all add: word_at_def)
  ultimately have "match_here (recursive_re n) ?p (n @ sp @ CHR ''('' # rest) \<noteq> None"
    using assms(4) by (simp add: recursive_re_def split: option.splits)
  then have "search_from (recursive_re n) None (pre @ n @ sp @ CHR ''('' # rest) \<noteq> None"
    by (rule search_from_complete)
  then show ?thesis by (simp add: regex_search_def)
qed

lemma signature_name_recursive:
  assumes "regex_search_group1 line (signature_re closer) = Some n"
  shows "n \<noteq> [] \<and> is_id_start (hd n) \<and> regex_search line (recursive_re n)"
proof -
  from assms obtain m where s: "search_from (signature_re closer) None line = Some m"
    and n: "(case m of a # b # _ \<Rightarrow> Some (take (length a - length b) a) | _ \<Rightarrow> None) = Some n"
    by (auto simp: regex_search_group1_def split: option.splits)
  from search_from_sound [OF s] obtain pre post where line: "line = pre @ post"
    and mh: "match_here (signature_re closer) (prev_after None pre) post = Some m"
    by blast
  from signature_match_shape [OF mh] obtain c a b sp rest ms
    where post: "post = c # a @ b" and m: "m = post # b # ms" and c: "is_id_start c"
      and b: "b = sp @ CHR ''('' # rest" and sp: "\<forall>x \<in> set sp. is_space x"
      and wb: "\<not> word_before (prev_after None pre)"
    by blast
  from n m post have neq: "n = c # a" by simp
  with c have w: "n \<noteq> [] \<and> is_word (hd n)" by (simp add: is_id_start_word)
  then have "regex_search (pre @ n @ sp @ CHR ''('' # rest) (recursive_re n)"
    using sp wb by (intro recursive_re_match) simp_all
  moreover have "line = pre @ n @ sp @ CHR ''('' # rest"
    using line post b neq by simp
  ultimately show ?thesis using neq c by simp
qed

text \<open>
  The captured name is an identifier, so splicing it into the pattern of \<open>is_recursive\<close>
  adds a literal, as \<open>recursive_re\<close> has it.
\<close>

lemma signature_name_identifier:
  assumes "regex_search_group1 line (signature_re closer) = Some n"
  shows "\<exists>c a. n = c # a \<and> is_id_start c \<and> (\<forall>x \<in> set a. is_id_char x)"
proof -
  from assms obtain m where s: "search_from (signature_re closer) None line = Some m"
    and n: "(case m of a # b # _ \<Rightarrow> Some (take (length a - length b) a) | _ \<Rightarrow> None) = Some n"
    by (auto simp: regex_search_group1_def split: option.splits)
  from search_from_sound [OF s] obtain pre post
    where mh: "match_here (signature_re closer) (prev_after None pre) post = Some m"
    by blast
  from signature_match_shape [OF mh] obtain c a b ms
    where post: "post = c # a @ b" and m: "m = post # b # ms" and c: "is_id_start c"
      and a: "\<forall>x \<in> set a. is_id_char x"
    by blast
  from n m post have "n = c # a" by simp
  with c a show ?thesis by blast
qed

subsection \<open>Definition lines and recursive calls\<close>

lemma analyze_loop_append:
  "fst (analyze_loop i (xs @ ys) s)
     = fst (analyze_loop i xs s) @ fst (analyze_loop (i + length xs) ys (snd (analyze_loop i xs s)))"
  "snd (analyze_loop i (xs @ ys) s)
     = snd (analyze_loop (i + length xs) ys (snd (analyze_loop i xs s)))"
  by (induction xs arbitrary: i s) (simp_all add: Let_def split_beta)

lemma analyze_loop_length: "length (fst (analyze_loop i ls s)) = length ls"
  using arg_cong [OF analyze_loop_code [of i ls s], of length] by simp

lemma analyze_loop_nth:
  "complexity (fst (analyze_loop i (xs @ l # ys) s) ! length xs)
     = analyze_line (before_line (trim l) (snd (analyze_loop i xs s))) (trim l)"
proof -
  have "fst (analyze_loop i (xs @ l # ys) s) ! length xs
      = fst (analyze_loop (i + length xs) (l # ys) (snd (analyze_loop i xs s))) ! 0"
    by (simp add: analyze_loop_append nth_append analyze_loop_length)
  then show ?thesis
    by (simp add: Let_def split_beta line_result_def)
qed

lemma current_function_before_line:
  "current_function (before_line line s)
     = (case regex_search_group1 line definition_re of Some n \<Rightarrow> n | None \<Rightarrow> current_function s)"
  by (simp add: before_line_def track_declaration_def split: option.splits)

lemma current_function_kept:
  "\<forall>m \<in> set mid. regex_search_group1 (trim m) definition_re = None \<Longrightarrow>
   current_function (snd (analyze_loop i mid s)) = current_function s"
  by (induction mid arbitrary: i s)
     (simp_all add: Let_def split_beta current_function_before_line)

lemma definition_line_class:
  assumes "regex_search_group1 line definition_re = Some n"
    and "\<not> is_comment line" and "\<not> regex_search line loop_re"
  shows "analyze_line (before_line line s) line = LINEARITHMIC"
proof -
  from assms(1) have "n \<noteq> [] \<and> is_id_start (hd n) \<and> regex_search line (recursive_re n)"
    unfolding definition_re_def by (rule signature_name_recursive)
  moreover have "current_function (before_line line s) = n"
    using assms(1) by (simp add: current_function_before_line)
  ultimately show ?thesis
    using assms(2,3) by (simp add: analyze_line_def is_recursive_def)
qed

lemma recursive_line_class:
  assumes "current_function s = f" and "f \<noteq> []" and "regex_search line (recursive_re f)"
    and "\<not> is_comment line" and "\<not> regex_search line loop_re"
  shows "analyze_line (before_line line s) line = LINEARITHMIC"
proof (cases "regex_search_group1 line definition_re")
  case None
  then have "current_function (before_line line s) = f"
    using assms(1) by (simp add: current_function_before_line)
  then show ?thesis
    using assms(2-5) by (simp add: analyze_line_def is_recursive_def)
next
  case (Some n)
  then show ?thesis using assms(4,5) by (rule definition_line_class)
qed

text \<open>
  C4 (as amended). When the definition pattern matches on a line, the captured name is
  the current function name before that same line is classified and stays so after the
  line: a definition line that is neither a comment nor a loop opener is classified
  LINEARITHMIC, wherever it stands in the input of a new analyzer.
\<close>

theorem definition_line_is_recursive:
  assumes "regex_search_group1 (trim l) definition_re = Some name"
    and "\<not> is_comment (trim l)" and "\<not> regex_search (trim l) loop_re"
  shows "complexity (fst (analyze (ComplexityAnalyzer (before @ l # after))) ! length before)
           = LINEARITHMIC \<and>
         current_function (snd (analyze_loop i [l] this)) = name"
proof -
  have "analyze (ComplexityAnalyzer (before @ l # after))
      = analyze_loop 0 (before @ l # after)
          (track_function_definitions (ComplexityAnalyzer (before @ l # after)))"
    by (rule analyze_unfold) (rule code_lines_ComplexityAnalyzer)
  then have "complexity (fst (analyze (ComplexityAnalyzer (before @ l # after))) ! length before)
      = LINEARITHMIC"
    using definition_line_class [OF assms] by (simp only: analyze_loop_nth)
  moreover have "current_function (snd (analyze_loop i [l] this)) = name"
    using assms(1) by (simp add: Let_def current_function_before_line)
  ultimately show ?thesis by simp
qed

theorem definition_line_is_recursive_witness:
  "regex_search_group1 (trim ''  int fib(int n) {'') definition_re = Some ''fib'' \<and>
   \<not> is_comment (trim ''  int fib(int n) {'') \<and>
   \<not> regex_search (trim ''  int fib(int n) {'') loop_re \<and>
   complexity (fst (analyze (ComplexityAnalyzer
       ([''// Fibonacci''] @ ''  int fib(int n) {'' # [''  return n;'', ''}''])))
     ! length [''// Fibonacci'']) = LINEARITHMIC \<and>
   current_function (snd (analyze_loop 0 [''  int fib(int n) {''] (ComplexityAnalyzer [])))
     = ''fib''"
proof -
  have h1: "regex_search_group1 (trim ''  int fib(int n) {'') definition_re = Some ''fib''"
    by code_simp
  have h2: "\<not> is_comment (trim ''  int fib(int n) {'')" by code_simp
  have h3: "\<not> regex_search (trim ''  int fib(int n) {'') loop_re" by code_simp
  from h1 h2 h3
    definition_line_is_recursive [OF h1 h2 h3, of "[''// Fibonacci'']"
      "[''  return n;'', ''}'']" 0 "ComplexityAnalyzer []"]
  show ?thesis by (intro conjI) simp_all
qed

text \<open>
  C4 as stated fails: \<open>int fib(int n) {\<close> is no loop opener and no call statement, and
  it is classified LINEARITHMIC, not CONSTANT.
\<close>

theorem definition_line_not_constant:
  "regex_search_group1 ''int fib(int n) {'' definition_re = Some ''fib'' \<and>
   \<not> regex_search ''int fib(int n) {'' loop_re \<and>
   \<not> regex_search ''int fib(int n) {'' call_re \<and>
   map complexity (fst (analyze (ComplexityAnalyzer [''int fib(int n) {''])))
     = [LINEARITHMIC]"
  by code_simp

text \<open>
  C3 (as amended). Let a line \<open>d\<close> match the definition pattern with name \<open>f\<close>, let no
  line of \<open>mid\<close> match it, and let the trimmed line \<open>l\<close> hold \<open>f\<close> as a whole word (at the
  start of the line or after a character that is no letter, digit or underscore)
  directly followed by an opening parenthesis. If \<open>l\<close> is neither a comment nor a loop
  opener, a new analyzer classifies it LINEARITHMIC.
\<close>

theorem recursive_call_line:
  assumes "regex_search_group1 (trim d) definition_re = Some f"
    and "\<forall>m \<in> set mid. regex_search_group1 (trim m) definition_re = None"
    and "trim l = u @ f @ CHR ''('' # v" and "u = [] \<or> \<not> is_word (last u)"
    and "\<not> is_comment (trim l)" and "\<not> regex_search (trim l) loop_re"
  shows "complexity (fst (analyze (ComplexityAnalyzer (before @ d # mid @ l # after)))
           ! (length before + 1 + length mid)) = LINEARITHMIC"
proof -
  let ?ls = "before @ d # mid @ l # after"
  let ?s0 = "track_function_definitions (ComplexityAnalyzer ?ls)"
  let ?xs = "before @ d # mid"
  have a: "analyze (ComplexityAnalyzer ?ls) = analyze_loop 0 (?xs @ l # after) ?s0"
    using analyze_unfold [OF code_lines_ComplexityAnalyzer, of ?ls] by simp
  from assms(1) have f: "f \<noteq> [] \<and> is_id_start (hd f) \<and> regex_search (trim d) (recursive_re f)"
    unfolding definition_re_def by (rule signature_name_recursive)
  then have fw: "f \<noteq> []" "is_word (hd f)" by (simp_all add: is_id_start_word)
  have wb: "\<not> word_before (prev_after None u)"
    using assms(4) by (auto simp: word_before_def prev_after_def)
  have "regex_search (u @ f @ [] @ CHR ''('' # v) (recursive_re f)"
    using fw _ wb by (rule recursive_re_match) simp
  then have rec: "regex_search (trim l) (recursive_re f)"
    using assms(3) by simp
  have "current_function (snd (analyze_loop 0 ?xs ?s0)) = f"
    using assms(1,2)
    by (simp add: analyze_loop_append Let_def split_beta current_function_kept
        current_function_before_line)
  then have "analyze_line (before_line (trim l) (snd (analyze_loop 0 ?xs ?s0))) (trim l)
      = LINEARITHMIC"
    using fw(1) rec assms(5,6) by (rule recursive_line_class)
  then have "complexity (fst (analyze_loop 0 (?xs @ l # after) ?s0) ! length ?xs) = LINEARITHMIC"
    by (simp only: analyze_loop_nth)
  then show ?thesis by (simp add: a)
qed

theorem recursive_call_line_witness:
  "regex_search_group1 (trim ''int fib(int n) {'') definition_re = Some ''fib'' \<and>
   list_all (\<lambda>m. regex_search_group1 (trim m) definition_re = None) [''  if (n < 2) return n;''] \<and>
   trim ''  return fib(n-1) + fib(n-2);'' = ''return '' @ ''fib'' @ CHR ''('' # ''n-1) + fib(n-2);'' \<and>
   \<not> is_word (last ''return '') \<and>
   \<not> is_comment (trim ''  return fib(n-1) + fib(n-2);'') \<and>
   \<not> regex_search (trim ''  return fib(n-1) + fib(n-2);'') loop_re \<and>
   complexity (fst (analyze (ComplexityAnalyzer
       ([] @ ''int fib(int n) {'' # [''  if (n < 2) return n;'']
           @ ''  return fib(n-1) + fib(n-2);'' # [''}''])))
     ! (length ([] :: string list) + 1 + length [''  if (n < 2) return n;''])) = LINEARITHMIC"
proof -
  have h1: "regex_search_group1 (trim ''int fib(int n) {'') definition_re = Some ''fib''"
    by code_simp
  have h2: "list_all (\<lambda>m. regex_search_group1 (trim m) definition_re = None)
      [''  if (n < 2) return n;'']"
    by code_simp
  then have h2': "\<forall>m \<in> set [''  if (n < 2) return n;''].
      regex_search_group1 (trim m) definition_re = None"
    by (simp only: list_all_iff)
  have h3: "trim ''  return fib(n-1) + fib(n-2);''
      = ''return '' @ ''fib'' @ CHR ''('' # ''n-1) + fib(n-2);''"
    by code_simp
  have h4: "\<not> is_word (last ''return '')" by code_simp
  then have h4': "''return '' = [] \<or> \<not> is_word (last ''return '')" by (rule disjI2)
  have h5: "\<not> is_comment (trim ''  return fib(n-1) + fib(n-2);'')" by code_simp
  have h6: "\<not> regex_search (trim ''  return fib(n-1) + fib(n-2);'') loop_re" by code_simp
  from h1 h2 h3 h4 h5 h6
    recursive_call_line [OF h1 h2' h3 h4' h5 h6, of "[]" "[''}'']"]
  show ?thesis by (intro conjI) simp_all
qed

text \<open>
  C3 as stated fails on a comment: the second line below holds \<open>fib(\<close> and is no loop
  opener, and it is classified CONSTANT.
\<close>

theorem commented_call_line_constant:
  "regex_search_group1 (trim ''int fib(int n) {'') definition_re = Some ''fib'' \<and>
   trim ''// fib(n-1) + fib(n-2);'' = ''// '' @ ''fib'' @ CHR ''('' # ''n-1) + fib(n-2);'' \<and>
   \<not> is_word (last ''// '') \<and>
   \<not> regex_search (trim ''// fib(n-1) + fib(n-2);'') loop_re \<and>
   map complexity (fst (analyze (ComplexityAnalyzer
       [''int fib(int n) {'', ''// fib(n-1) + fib(n-2);''])))
     = [LINEARITHMIC, CONSTANT]"
  by code_simp

end
